theory Spec2Isabelle
  imports Complex_Main
begin

section \<open>Tensors, errors and Python dictionaries\<close>

text \<open>
  A rank-3 tensor of shape \<open>(batch, seqlen, feat)\<close>, as the attention cache holds
  them. The shape is stored explicitly, as torch and numpy store it, so that a tensor
  with a zero-length axis still has its other sizes. \<open>cells t ! b ! p\<close> is the feature
  vector at batch row \<open>b\<close> and sequence position \<open>p\<close>; the feature vectors themselves are
  of an abstract type \<open>'a\<close>.
\<close>

record 'a tensor =
  batch :: nat
  seqlen :: nat
  feat :: nat
  cells :: "'a list list"

text \<open>
  The exceptions the code can raise, as values:
  \<^item> \<open>ShapeMismatch\<close>: torch's RuntimeError "Sizes of tensors must match except in
    dimension 1" raised by \<open>torch.cat\<close>;
  \<^item> \<open>MissingFeatures\<close>: the AttributeError raised when \<open>xa\<close> is \<open>None\<close> and the code
    reads \<open>xa.dtype\<close> or \<open>xa.numpy()\<close>;
  \<^item> \<open>IndexOutOfRange\<close>: the IndexError of indexing a tensor out of range;
  \<^item> \<open>EngineExecutionFailure\<close>: any exception of the compiled model or of a module of
    the network;
  \<^item> \<open>KeyError\<close>: a dictionary read at a missing key;
  \<^item> \<open>ValueError\<close>, \<open>ZeroDivisionError\<close>: the numpy and Python exceptions of \<open>resample\<close>.
\<close>

datatype error =
  ShapeMismatch
  | MissingFeatures
  | IndexOutOfRange
  | EngineExecutionFailure
  | KeyError
  | ValueError
  | ZeroDivisionError

text \<open>
  A Python \<open>dict\<close> keeps its keys in insertion order: it is an association list with
  distinct keys. \<open>d[k] = v\<close> overwrites the value of an existing key in place and
  appends a new key at the end.
\<close>

type_synonym ('k, 'v) dict = "('k \<times> 'v) list"

fun dict_set :: "('k, 'v) dict \<Rightarrow> 'k \<Rightarrow> 'v \<Rightarrow> ('k, 'v) dict" where
  "dict_set [] k v = [(k, v)]"
| "dict_set ((k', v') # d) k v =
     (if k' = k then (k, v) # d else (k', v') # dict_set d k v)"

type_synonym 'a cache = "(string, 'a tensor) dict"

section \<open>The cache store of the patched decoder\<close>

text \<open>
  \<open>torch.cat([a, b], dim=1)\<close>: the sizes of every axis but the sequence axis must
  agree; the rows of \<open>b\<close> are appended to the rows of \<open>a\<close>, batch row by batch row.
\<close>

definition torch_cat :: "'a tensor \<Rightarrow> 'a tensor \<Rightarrow> error + 'a tensor" where
  "torch_cat a b =
     (if batch a = batch b \<and> feat a = feat b
      then Inr \<lparr>batch = batch a, seqlen = seqlen a + seqlen b, feat = feat a,
                cells = map2 (@) (cells a) (cells b)\<rparr>
      else Inl ShapeMismatch)"

text \<open>
  \<open>save_to_cache(cache, module, output)\<close>. The first argument is the global
  \<open>positional_embeddings_size\<close>. The result is the updated dictionary and the value
  returned, \<open>cache[module]\<close>. (\<open>module\<close> is \<open>module_name\<close> here.)
\<close>

definition save_to_cache ::
  "nat \<Rightarrow> 'a cache \<Rightarrow> string \<Rightarrow> 'a tensor \<Rightarrow> error + ('a cache \<times> 'a tensor)" where
  "save_to_cache positional_embeddings_size cache module_name output =
     (case map_of cache module_name of
        None \<Rightarrow> Inr (dict_set cache module_name output, output)
      | Some old \<Rightarrow>
          if seqlen output > positional_embeddings_size
          then Inr (dict_set cache module_name output, output)
          else (case torch_cat old output of
                  Inl e \<Rightarrow> Inl e
                | Inr t \<Rightarrow> Inr (dict_set cache module_name t, t)))"

section \<open>The network modules\<close>

text \<open>
  Exceptions propagate: the rest of a computation runs only on a result.
\<close>

definition and_then :: "error + 'a \<Rightarrow> ('a \<Rightarrow> error + 'b) \<Rightarrow> error + 'b" where
  "and_then m f = (case m of Inl e \<Rightarrow> Inl e | Inr v \<Rightarrow> f v)"

text \<open>
  The token batch \<open>x\<close> of shape \<open>(tok_batch, tok_len)\<close>.
\<close>

record tokens =
  tok_batch :: nat
  tok_len :: nat
  ids :: "int list list"

text \<open>
  The modules of the whisper network are not part of this repository: the patched
  forward functions only call them. They are parameters here. An attention module has
  its four linear projections and \<open>qkv_attention(q, k, v, mask)\<close>; the last argument
  says whether a mask is passed (\<open>has_mask\<close> below: \<open>mask\<close> is a constant of HOL).
\<close>

record 'a attention =
  query :: "'a tensor \<Rightarrow> 'a tensor"
  key :: "'a tensor \<Rightarrow> 'a tensor"
  val :: "'a tensor \<Rightarrow> 'a tensor"
  out :: "'a tensor \<Rightarrow> 'a tensor"
  qkv_attention :: "'a tensor \<Rightarrow> 'a tensor \<Rightarrow> 'a tensor \<Rightarrow> bool \<Rightarrow> error + 'a tensor"

record 'a block =
  attn :: "'a attention"
  attn_ln :: "'a tensor \<Rightarrow> 'a tensor"
  cross_attn :: "'a attention option"
  cross_attn_ln :: "'a tensor \<Rightarrow> 'a tensor"
  mlp :: "'a tensor \<Rightarrow> 'a tensor"
  mlp_ln :: "'a tensor \<Rightarrow> 'a tensor"

text \<open>
  \<open>embed d offset x\<close> stands for
  \<open>d.token_embedding(x) + d.positional_embedding[offset: offset + x.shape[-1]]\<close>,
  \<open>unembed d x\<close> for \<open>(x @ transpose(d.token_embedding.weight, 1, 0)).float()\<close>.
\<close>

record 'a decoder =
  embed :: "nat \<Rightarrow> tokens \<Rightarrow> error + 'a tensor"
  blocks :: "'a block list"
  ln :: "'a tensor \<Rightarrow> 'a tensor"
  unembed :: "'a tensor \<Rightarrow> 'a tensor"

section \<open>The patched forward functions\<close>

text \<open>
  The f-string \<open>f'{idx}'\<close> of a non-negative integer: its decimal digits.
\<close>

definition digit_char :: "nat \<Rightarrow> char" where
  "digit_char d = char_of (48 + d)"

function string_of_nat :: "nat \<Rightarrow> string" where
  "string_of_nat n =
     (if n < 10 then [digit_char n]
      else string_of_nat (n div 10) @ [digit_char (n mod 10)])"
  by pat_completeness auto
termination
  by (relation "measure (\<lambda>n. n)") auto

declare string_of_nat.simps [simp del]

text \<open>
  The keys and values that \<open>attention_forward\<close> attends on, and the cache after the
  call. The four cases are those of the source:
  \<^item> no cache: the projections of \<open>x\<close> (or of \<open>xa\<close> when it is given);
  \<^item> a cache and no \<open>xa\<close> (self-attention): the projections of \<open>x\<close> go through
    \<open>save_to_cache\<close>;
  \<^item> a cache and \<open>xa\<close> (cross-attention):
    \<open>kv_cache.get(f'k_{idx}', save_to_cache(kv_cache, f'k_{idx}', key(xa)))\<close>. Python
    evaluates the default argument before the call of \<open>get\<close>, so \<open>save_to_cache\<close>
    runs on every call; \<open>get\<close> then reads the dictionary it has updated.
\<close>

fun cached_kv ::
  "nat \<Rightarrow> 'a attention \<Rightarrow> 'a tensor \<Rightarrow> 'a tensor option \<Rightarrow> 'a cache option \<Rightarrow> string
     \<Rightarrow> error + ('a tensor \<times> 'a tensor \<times> 'a cache option)" where
  "cached_kv pes am x None None idx = Inr (key am x, val am x, None)"
| "cached_kv pes am x (Some xa) None idx = Inr (key am xa, val am xa, None)"
| "cached_kv pes am x None (Some c) idx =
     and_then (save_to_cache pes c (''k_'' @ idx) (key am x)) (\<lambda>(c1, k).
     and_then (save_to_cache pes c1 (''v_'' @ idx) (val am x)) (\<lambda>(c2, v).
     Inr (k, v, Some c2)))"
| "cached_kv pes am x (Some xa) (Some c) idx =
     and_then (save_to_cache pes c (''k_'' @ idx) (key am xa)) (\<lambda>(c1, dk).
     let k = (case map_of c1 (''k_'' @ idx) of Some t \<Rightarrow> t | None \<Rightarrow> dk) in
     and_then (save_to_cache pes c1 (''v_'' @ idx) (val am xa)) (\<lambda>(c2, dv).
     let v = (case map_of c2 (''v_'' @ idx) of Some t \<Rightarrow> t | None \<Rightarrow> dv) in
     Inr (k, v, Some c2)))"

definition attention_forward ::
  "nat \<Rightarrow> 'a attention \<Rightarrow> 'a tensor \<Rightarrow> 'a tensor option \<Rightarrow> bool \<Rightarrow> 'a cache option \<Rightarrow> string
     \<Rightarrow> error + ('a tensor \<times> 'a cache option)" where
  "attention_forward pes attention_module x xa has_mask kv_cache idx =
     (let q = query attention_module x in
      and_then (cached_kv pes attention_module x xa kv_cache idx) (\<lambda>(k, v, kv_cache').
      and_then (qkv_attention attention_module q k v has_mask) (\<lambda>wv.
      Inr (out attention_module wv, kv_cache'))))"

text \<open>
  \<open>block_forward\<close>. \<open>tadd\<close> is torch's \<open>+\<close> on tensors. The self-attention is called
  without \<open>xa\<close> and with the mask, the cross-attention with \<open>xa\<close> and without a mask.
\<close>

definition block_forward ::
  "nat \<Rightarrow> ('a tensor \<Rightarrow> 'a tensor \<Rightarrow> error + 'a tensor) \<Rightarrow> 'a block \<Rightarrow> 'a tensor
     \<Rightarrow> 'a tensor option \<Rightarrow> bool \<Rightarrow> 'a cache option \<Rightarrow> nat
     \<Rightarrow> error + ('a tensor \<times> 'a cache option)" where
  "block_forward pes tadd residual_block x xa has_mask kv_cache idx =
     and_then (attention_forward pes (attn residual_block) (attn_ln residual_block x)
                 None has_mask kv_cache (string_of_nat idx @ ''a'')) (\<lambda>(x0, kv1).
     and_then (tadd x x0) (\<lambda>x1.
     and_then (case cross_attn residual_block of
                 None \<Rightarrow> Inr (x1, kv1)
               | Some ca \<Rightarrow>
                   and_then (attention_forward pes ca (cross_attn_ln residual_block x1)
                               xa False kv1 (string_of_nat idx @ ''c'')) (\<lambda>(xc, kv2).
                   and_then (tadd x1 xc) (\<lambda>x2. Inr (x2, kv2)))) (\<lambda>(x3, kv3).
     and_then (tadd x3 (mlp residual_block (mlp_ln residual_block x3))) (\<lambda>x4.
     Inr (x4, kv3)))))"

text \<open>
  The loop \<open>for block in decoder.blocks\<close>; block number \<open>idx\<close> was bound to its
  \<open>forward\<close> by \<open>enumerate\<close>.
\<close>

fun forward_blocks ::
  "nat \<Rightarrow> ('a tensor \<Rightarrow> 'a tensor \<Rightarrow> error + 'a tensor) \<Rightarrow> 'a block list \<Rightarrow> nat \<Rightarrow> 'a tensor
     \<Rightarrow> 'a tensor option \<Rightarrow> 'a cache option \<Rightarrow> error + ('a tensor \<times> 'a cache option)" where
  "forward_blocks pes tadd [] idx x xa kv_cache = Inr (x, kv_cache)"
| "forward_blocks pes tadd (b # bs) idx x xa kv_cache =
     and_then (block_forward pes tadd b x xa True kv_cache idx) (\<lambda>(x', kv').
     forward_blocks pes tadd bs (Suc idx) x' xa kv')"

text \<open>
  \<open>offset\<close>: the sequence length of the first value of the dictionary, or 0 for
  \<open>None\<close> and for the empty dictionary.
\<close>

fun cache_offset :: "'a cache option \<Rightarrow> nat" where
  "cache_offset None = 0"
| "cache_offset (Some []) = 0"
| "cache_offset (Some ((m, t) # rest)) = seqlen t"

text \<open>
  \<open>decoder_forward\<close>. \<open>x.to(xa.dtype)\<close> raises when \<open>xa\<close> is \<open>None\<close>, after the
  embedding has been computed. In Python the stores of a call that fails later have
  already changed the dictionary of the caller; the result here is the error alone.
\<close>

definition decoder_forward ::
  "nat \<Rightarrow> ('a tensor \<Rightarrow> 'a tensor \<Rightarrow> error + 'a tensor) \<Rightarrow> 'a decoder \<Rightarrow> tokens
     \<Rightarrow> 'a tensor option \<Rightarrow> 'a cache option \<Rightarrow> error + ('a tensor \<times> 'a cache option)" where
  "decoder_forward pes tadd decoder x xa kv_cache =
     (let offset = cache_offset kv_cache in
      and_then (embed decoder offset x) (\<lambda>x1.
      case xa of
        None \<Rightarrow> Inl MissingFeatures
      | Some a \<Rightarrow>
          and_then (forward_blocks pes tadd (blocks decoder) 0 x1 xa kv_cache) (\<lambda>(x2, kv').
          Inr (unembed decoder (ln decoder x2), kv'))))"

text \<open>
  A decoding run on the direct backend: the steps in order, each on the cache the
  previous one returned; the first failure ends the run.
\<close>

fun run_steps ::
  "nat \<Rightarrow> ('a tensor \<Rightarrow> 'a tensor \<Rightarrow> error + 'a tensor) \<Rightarrow> 'a decoder \<Rightarrow> 'a cache option
     \<Rightarrow> (tokens \<times> 'a tensor option) list \<Rightarrow> error + 'a cache option" where
  "run_steps pes tadd d kv [] = Inr kv"
| "run_steps pes tadd d kv ((x, xa) # steps) =
     and_then (decoder_forward pes tadd d x xa kv) (\<lambda>(logits, kv').
     run_steps pes tadd d kv' steps)"

section \<open>The adapter of the compiled model\<close>

text \<open>
  The feed dictionary of the compiled model holds the token batch and float tensors.
  An output of the compiled model has a set of names and one name that \<open>any_name\<close>
  returns. The compiled model itself belongs to the inference engine: a parameter.
\<close>

datatype 'a feed_value = TokensIn tokens | TensorIn "'a tensor"

record port =
  any_name :: string
  names :: "string list"

record 'a text_decoder =
  input_names :: "string list"
  compiled_model :: "(string, 'a feed_value) dict \<Rightarrow> error + (port \<times> 'a tensor) list"

text \<open>
  \<open>np.zeros((b, s, f))\<close>, with every cell the feature vector \<open>z\<close> (there is no cell
  when \<open>s = 0\<close>).
\<close>

definition np_zeros :: "'a \<Rightarrow> nat \<Rightarrow> nat \<Rightarrow> nat \<Rightarrow> 'a tensor" where
  "np_zeros z b s f = \<lparr>batch = b, seqlen = s, feat = f, cells = replicate b (replicate s z)\<rparr>"

text \<open>
  \<open>init_past_inputs\<close>. \<open>feed_dict['tokens'].shape[0]\<close> and
  \<open>feed_dict['audio_features'].shape[2]\<close> raise when the entry is missing, and the
  second when the entry has no third axis; \<open>forward\<close> always supplies both.
\<close>

fun shape0 :: "'a feed_value \<Rightarrow> nat" where
  "shape0 (TokensIn x) = tok_batch x"
| "shape0 (TensorIn t) = batch t"

fun shape2 :: "'a feed_value \<Rightarrow> error + nat" where
  "shape2 (TokensIn x) = Inl IndexOutOfRange"
| "shape2 (TensorIn t) = Inr (feat t)"

definition init_past_inputs ::
  "'a \<Rightarrow> 'a text_decoder \<Rightarrow> (string, 'a feed_value) dict \<Rightarrow> error + (string, 'a feed_value) dict" where
  "init_past_inputs z self feed_dict =
     (case map_of feed_dict ''tokens'' of
        None \<Rightarrow> Inl KeyError
      | Some tk \<Rightarrow>
          (case map_of feed_dict ''audio_features'' of
             None \<Rightarrow> Inl KeyError
           | Some af \<Rightarrow>
               and_then (shape2 af) (\<lambda>audio_len.
               let beam_size = shape0 tk; previous_seq_len = 0 in
               Inr (fold (\<lambda>name fd.
                      if name \<in> set [''tokens'', ''audio_features''] then fd
                      else dict_set fd name
                             (TensorIn (np_zeros z beam_size previous_seq_len audio_len)))
                    (input_names self) feed_dict))))"

text \<open>
  \<open>preprocess_kv_cache_inputs\<close>: \<open>not kv_cache\<close> holds of \<open>None\<close> and of the empty
  dictionary.
\<close>

fun preprocess_kv_cache_inputs ::
  "'a \<Rightarrow> 'a text_decoder \<Rightarrow> (string, 'a feed_value) dict \<Rightarrow> 'a cache option
     \<Rightarrow> error + (string, 'a feed_value) dict" where
  "preprocess_kv_cache_inputs z self feed_dict None = init_past_inputs z self feed_dict"
| "preprocess_kv_cache_inputs z self feed_dict (Some []) = init_past_inputs z self feed_dict"
| "preprocess_kv_cache_inputs z self feed_dict (Some kv_cache) =
     Inr (fold (\<lambda>(k, v) fd.
            let new_k = ''in_'' @ k in
            if new_k \<in> set (input_names self) then dict_set fd new_k (TensorIn v) else fd)
          kv_cache feed_dict)"

text \<open>
  Python's \<open>s.replace(old, new)\<close>: every occurrence of \<open>old\<close>, found from the left
  and not overlapping, is replaced.
\<close>

function str_replace :: "string \<Rightarrow> string \<Rightarrow> string \<Rightarrow> string" where
  "str_replace old new s =
     (if old = [] then new @ concat (map (\<lambda>c. c # new) s)
      else if s = [] then []
      else if take (length old) s = old
        then new @ str_replace old new (drop (length old) s)
      else hd s # str_replace old new (tl s))"
  by pat_completeness auto
termination
  by (relation "measure (\<lambda>(old, new, s). length s)") auto

declare str_replace.simps [simp del]

text \<open>
  \<open>postprocess_outputs\<close>: the loop over the outputs of the compiled model, from
  \<open>logits = None\<close> and an empty dictionary.
\<close>

definition postprocess_outputs ::
  "(port \<times> 'a tensor) list \<Rightarrow> 'a tensor option \<times> 'a cache" where
  "postprocess_outputs outputs =
     fold (\<lambda>(output_t, out_v) (logits, kv_cache).
             if ''logits'' \<in> set (names output_t) then (Some out_v, kv_cache)
             else (logits,
                   dict_set kv_cache (str_replace ''out_'' [] (any_name output_t)) out_v))
          outputs (None, [])"

text \<open>
  \<open>OpenVINOTextDecoder.forward\<close>: \<open>xa.numpy()\<close> raises when \<open>xa\<close> is \<open>None\<close>.
\<close>

definition text_decoder_forward ::
  "'a \<Rightarrow> 'a text_decoder \<Rightarrow> tokens \<Rightarrow> 'a tensor option \<Rightarrow> 'a cache option
     \<Rightarrow> error + ('a tensor option \<times> 'a cache)" where
  "text_decoder_forward z self x xa kv_cache =
     (case xa of
        None \<Rightarrow> Inl MissingFeatures
      | Some a \<Rightarrow>
          (let feed_dict = [(''tokens'', TokensIn x), (''audio_features'', TensorIn a)] in
           and_then (preprocess_kv_cache_inputs z self feed_dict kv_cache) (\<lambda>feed_dict.
           and_then (compiled_model self feed_dict) (\<lambda>res.
           Inr (postprocess_outputs res)))))"

section \<open>The inference wrapper\<close>

text \<open>
  \<open>tensor[source_indices]\<close> with a list of integers gathers batch rows; a negative
  index counts from the end, an index out of range raises.
\<close>

definition index_select :: "'a tensor \<Rightarrow> int list \<Rightarrow> error + 'a tensor" where
  "index_select t source_indices =
     (if list_all (\<lambda>i. - int (batch t) \<le> i \<and> i < int (batch t)) source_indices
      then Inr \<lparr>batch = length source_indices, seqlen = seqlen t, feat = feat t,
                cells = map (\<lambda>i. cells t ! nat (if i < 0 then i + int (batch t) else i))
                            source_indices\<rparr>
      else Inl IndexOutOfRange)"

text \<open>
  \<open>rearrange_kv_cache\<close>, on the dictionary: the loop over its items, each assigning
  \<open>kv_cache[module] = tensor[source_indices]\<close>.
\<close>

definition rearrange_kv_cache :: "'a cache \<Rightarrow> int list \<Rightarrow> error + 'a cache" where
  "rearrange_kv_cache kv source_indices =
     fold (\<lambda>(module_name, tensor) acc.
             and_then acc (\<lambda>c.
             and_then (index_select tensor source_indices) (\<lambda>t.
             Inr (dict_set c module_name t))))
          kv (Inr kv)"

text \<open>
  The objects of the wrapper. Dictionaries are mutable objects: the heap is the list of
  the dictionaries allocated so far, an address is an index into it, and \<open>{}\<close>
  allocates a new one. An \<open>OpenVINOInference\<close> object holds the address of its
  \<open>kv_cache\<close>.
\<close>

type_synonym 'a heap = "'a cache list"

record inference =
  initial_token_length :: nat
  kv_cache :: nat

definition new_dict :: "'a heap \<Rightarrow> 'a heap \<times> nat" where
  "new_dict h = (h @ [[]], length h)"

definition inference_init :: "'a heap \<Rightarrow> nat \<Rightarrow> 'a heap \<times> inference" where
  "inference_init h itl =
     (case new_dict h of (h', a) \<Rightarrow> (h', \<lparr>initial_token_length = itl, kv_cache = a\<rparr>))"

definition cleanup_caching :: "'a heap \<Rightarrow> inference \<Rightarrow> 'a heap \<times> inference" where
  "cleanup_caching h self = (case new_dict h of (h', a) \<Rightarrow> (h', self\<lparr>kv_cache := a\<rparr>))"

text \<open>
  A store into the dictionary at an address, as \<open>save_to_cache\<close> does it in place,
  and \<open>rearrange_kv_cache\<close> on the dictionary of the wrapper.
\<close>

definition save_at ::
  "nat \<Rightarrow> 'a heap \<Rightarrow> nat \<Rightarrow> string \<Rightarrow> 'a tensor \<Rightarrow> error + ('a heap \<times> 'a tensor)" where
  "save_at pes h a module_name output =
     (if a < length h
      then and_then (save_to_cache pes (h ! a) module_name output) (\<lambda>(c, r). Inr (h[a := c], r))
      else Inl IndexOutOfRange)"

definition rearrange_at :: "'a heap \<Rightarrow> inference \<Rightarrow> int list \<Rightarrow> error + 'a heap" where
  "rearrange_at h self source_indices =
     (if kv_cache self < length h
      then and_then (rearrange_kv_cache (h ! kv_cache self) source_indices)
             (\<lambda>c. Inr (h[kv_cache self := c]))
      else Inl IndexOutOfRange)"

text \<open>
  \<open>OpenVINOInference.logits\<close> cuts the tokens to the last one when there are more of
  them than the initial tokens, then calls the decoder of the model (a parameter: the
  patched decoder or the compiled one) on the cache of the wrapper.
\<close>

definition last_token :: "tokens \<Rightarrow> tokens" where
  "last_token x =
     \<lparr>tok_batch = tok_batch x, tok_len = min 1 (tok_len x),
      ids = map (\<lambda>row. drop (length row - 1) row) (ids x)\<rparr>"

definition logits ::
  "(tokens \<Rightarrow> 'a tensor option \<Rightarrow> 'a cache option \<Rightarrow> error + ('l \<times> 'a cache option))
     \<Rightarrow> nat \<Rightarrow> 'a cache option \<Rightarrow> tokens \<Rightarrow> 'a tensor option
     \<Rightarrow> error + ('l \<times> 'a cache option)" where
  "logits model_decoder itl kv x audio_features =
     (let x' = (if tok_len x > itl then last_token x else x) in
      model_decoder x' audio_features kv)"

text \<open>
  The calls of \<open>logits\<close> of one decoding run: each stores the cache the decoder
  returned in the wrapper (\<open>logits, self.kv_cache = self.model.decoder(...)\<close>).
\<close>

fun run_logits ::
  "(tokens \<Rightarrow> 'a tensor option \<Rightarrow> 'a cache option \<Rightarrow> error + ('l \<times> 'a cache option))
     \<Rightarrow> nat \<Rightarrow> 'a cache option \<Rightarrow> (tokens \<times> 'a tensor option) list
     \<Rightarrow> error + 'a cache option" where
  "run_logits model_decoder itl kv [] = Inr kv"
| "run_logits model_decoder itl kv ((x, audio_features) # calls) =
     and_then (logits model_decoder itl kv x audio_features) (\<lambda>(l, kv').
     run_logits model_decoder itl kv' calls)"

section \<open>Resampling\<close>

text \<open>
  An audio signal is a one-dimensional array with a dtype. The floating-point
  operations of \<open>resample\<close> are parameters: \<open>fdiv n r\<close> is \<open>n / r\<close>, \<open>fmul d r\<close> is
  \<open>d * r\<close>, \<open>ftrunc\<close> is \<open>int\<close>, \<open>lin_point a b n i\<close> is element \<open>i\<close> of
  \<open>np.linspace(a, b, n, dtype=np.float32)\<close>, \<open>interp1 x xp fp\<close> is the value of
  \<open>np.interp\<close> at one point \<open>x\<close>, and \<open>as_float32\<close> rounds to float32.
\<close>

datatype dtype = Int16 | Int32 | Float32 | Float64

record 'f audio =
  dtype :: dtype
  samples :: "'f list"

record 'f float_ops =
  fzero :: 'f
  fdiv :: "nat \<Rightarrow> int \<Rightarrow> 'f"
  fmul :: "'f \<Rightarrow> int \<Rightarrow> 'f"
  ftrunc :: "'f \<Rightarrow> int"
  lin_point :: "'f \<Rightarrow> 'f \<Rightarrow> nat \<Rightarrow> nat \<Rightarrow> 'f"
  interp1 :: "'f \<Rightarrow> 'f list \<Rightarrow> 'f list \<Rightarrow> 'f"
  as_float32 :: "'f \<Rightarrow> 'f"

definition np_linspace :: "'f float_ops \<Rightarrow> 'f \<Rightarrow> 'f \<Rightarrow> nat \<Rightarrow> 'f list" where
  "np_linspace fl a b n = map (lin_point fl a b n) [0..<n]"

text \<open>
  \<open>resample\<close>. The division raises for a source rate of 0, \<open>np.zeros\<close> raises for a
  negative length, and \<open>np.interp\<close> raises "array of sample points is empty" for an
  empty signal.
\<close>

definition resample :: "'f float_ops \<Rightarrow> 'f audio \<Rightarrow> int \<Rightarrow> int \<Rightarrow> error + 'f audio" where
  "resample fl audio src_sample_rate dst_sample_rate =
     (if src_sample_rate = dst_sample_rate then Inr audio
      else if src_sample_rate = 0 then Inl ZeroDivisionError
      else
        (let duration = fdiv fl (length (samples audio)) src_sample_rate;
             n = ftrunc fl (fmul fl duration dst_sample_rate)
         in if n < 0 then Inl ValueError
            else
              (let x_old = np_linspace fl (fzero fl) duration (length (samples audio));
                   x_new = np_linspace fl (fzero fl) duration (nat n)
               in if x_old = [] then Inl ValueError
                  else Inr \<lparr>dtype = Float32,
                            samples = map (as_float32 fl)
                                        (map (\<lambda>x. interp1 fl x x_old (samples audio)) x_new)\<rparr>)))"

section \<open>Slot names and the contract of the network modules\<close>

text \<open>
  The cache slots of decoder block \<open>i\<close>, as \<open>block_forward\<close> and
  \<open>attention_forward\<close> name them: \<open>f'k_{i}a'\<close> and \<open>f'v_{i}a'\<close> for the
  self-attention, \<open>f'k_{i}c'\<close> and \<open>f'v_{i}c'\<close> for the cross-attention.
\<close>

definition self_key :: "nat \<Rightarrow> string" where
  "self_key i = ''k_'' @ string_of_nat i @ ''a''"

definition self_val :: "nat \<Rightarrow> string" where
  "self_val i = ''v_'' @ string_of_nat i @ ''a''"

definition cross_key :: "nat \<Rightarrow> string" where
  "cross_key i = ''k_'' @ string_of_nat i @ ''c''"

definition cross_val :: "nat \<Rightarrow> string" where
  "cross_val i = ''v_'' @ string_of_nat i @ ''c''"

text \<open>
  What the library promises of its modules, and what the theorems below assume of the
  parameters: linear layers, layer norms and the MLP keep the shape of their input,
  \<open>qkv_attention\<close> returns a tensor of the shape of the query, the sum of two tensors
  of one shape has that shape, and the embedding of a token batch has one position
  per token and one row per batch entry. (The library keeps these promises while the
  positions \<open>offset, ..., offset + x.shape[-1] - 1\<close> lie in its positional table;
  the contract says nothing of a call that raises.)
\<close>

definition shape :: "'a tensor \<Rightarrow> nat \<times> nat \<times> nat" where
  "shape t = (batch t, seqlen t, feat t)"

definition keeps_shape :: "('a tensor \<Rightarrow> 'a tensor) \<Rightarrow> bool" where
  "keeps_shape f = (\<forall>x. shape (f x) = shape x)"

definition attention_ok :: "'a attention \<Rightarrow> bool" where
  "attention_ok am =
     (keeps_shape (query am) \<and> keeps_shape (key am) \<and> keeps_shape (val am)
      \<and> keeps_shape (out am)
      \<and> (\<forall>q k v m r. qkv_attention am q k v m = Inr r \<longrightarrow> shape r = shape q))"

definition block_ok :: "'a block \<Rightarrow> bool" where
  "block_ok b =
     (attention_ok (attn b) \<and> keeps_shape (attn_ln b)
      \<and> (case cross_attn b of None \<Rightarrow> True | Some ca \<Rightarrow> attention_ok ca)
      \<and> keeps_shape (cross_attn_ln b) \<and> keeps_shape (mlp b) \<and> keeps_shape (mlp_ln b))"

definition tadd_ok :: "('a tensor \<Rightarrow> 'a tensor \<Rightarrow> error + 'a tensor) \<Rightarrow> bool" where
  "tadd_ok tadd = (\<forall>x y r. shape y = shape x \<and> tadd x y = Inr r \<longrightarrow> shape r = shape x)"

definition decoder_ok :: "'a decoder \<Rightarrow> bool" where
  "decoder_ok d =
     ((\<forall>offset x r. embed d offset x = Inr r \<longrightarrow> batch r = tok_batch x \<and> seqlen r = tok_len x)
      \<and> list_all block_ok (blocks d))"

text \<open>
  The length of a slot after a store of \<open>t\<close> new positions, from its length before
  (\<open>None\<close>: the slot is not in the cache).
\<close>

fun grow :: "nat \<Rightarrow> nat \<Rightarrow> nat option \<Rightarrow> nat" where
  "grow pes t None = t"
| "grow pes t (Some l) = (if t > pes then t else l + t)"

definition slot_len :: "'a cache \<Rightarrow> string \<Rightarrow> nat option" where
  "slot_len c m = map_option seqlen (map_of c m)"

section \<open>A small network, for concrete runs\<close>

text \<open>
  A one-block decoder whose modules are identities on integer cells: the embedding of
  a token batch has the token ids as its cells, attention returns the query, and the
  sum of two tensors of one shape is the first.
\<close>

definition example_attention :: "int attention" where
  "example_attention =
     \<lparr>query = (\<lambda>x. x), key = (\<lambda>x. x), val = (\<lambda>x. x), out = (\<lambda>x. x),
      qkv_attention = (\<lambda>q k v m. Inr q)\<rparr>"

definition example_block :: "int block" where
  "example_block =
     \<lparr>attn = example_attention, attn_ln = (\<lambda>x. x), cross_attn = Some example_attention,
      cross_attn_ln = (\<lambda>x. x), mlp = (\<lambda>x. x), mlp_ln = (\<lambda>x. x)\<rparr>"

definition example_tadd :: "int tensor \<Rightarrow> int tensor \<Rightarrow> error + int tensor" where
  "example_tadd x y = (if shape x = shape y then Inr x else Inl ShapeMismatch)"

definition example_decoder :: "int decoder" where
  "example_decoder =
     \<lparr>embed = (\<lambda>offset x. Inr \<lparr>batch = tok_batch x, seqlen = tok_len x, feat = 1, cells = ids x\<rparr>),
      blocks = [example_block], ln = (\<lambda>x. x), unembed = (\<lambda>x. x)\<rparr>"

text \<open>
  A token batch and a tensor from their rows (all of one length, and at least one).
\<close>

definition toks :: "int list list \<Rightarrow> tokens" where
  "toks rows = \<lparr>tok_batch = length rows, tok_len = length (hd rows), ids = rows\<rparr>"

definition tens :: "nat \<Rightarrow> 'a list list \<Rightarrow> 'a tensor" where
  "tens f rows = \<lparr>batch = length rows, seqlen = length (hd rows), feat = f, cells = rows\<rparr>"

text \<open>
  Encoder features of one batch row: five positions, five other positions, and two.
\<close>

definition example_features :: "int tensor" where
  "example_features = tens 1 [[7, 8, 9, 10, 11]]"

definition other_features :: "int tensor" where
  "other_features = tens 1 [[70, 80, 90, 100, 110]]"

definition short_features :: "int tensor" where
  "short_features = tens 1 [[7, 8]]"

text \<open>
  A cache of two slots with five batch rows each.
\<close>

definition example_cache5 :: "int cache" where
  "example_cache5 =
     [(''k_0a'', tens 1 [[10], [11], [12], [13], [14]]),
      (''k_0c'', tens 1 [[20, 21], [22, 23], [24, 25], [26, 27], [28, 29]])]"

text \<open>
  The batch rows of a tensor at the given (non-negative) indices.
\<close>

definition gather :: "'a tensor \<Rightarrow> int list \<Rightarrow> 'a tensor" where
  "gather t idx = \<lparr>batch = length idx, seqlen = seqlen t, feat = feat t,
                   cells = map (\<lambda>i. cells t ! nat i) idx\<rparr>"

text \<open>
  A compiled decoder with the cache inputs of one self-attention block, as the exported
  graph declares them (the cross-attention slots are no inputs of the graph). Its model
  returns the logits and the slot \<open>k_0a\<close>.
\<close>

definition example_text_decoder :: "int text_decoder" where
  "example_text_decoder =
     \<lparr>input_names = [''tokens'', ''audio_features'', ''in_k_0a'', ''in_v_0a''],
      compiled_model = (\<lambda>fd.
        case map_of fd ''in_k_0a'' of
          Some (TensorIn t) \<Rightarrow>
            Inr [(\<lparr>any_name = ''logits'', names = [''logits'']\<rparr>, t),
                 (\<lparr>any_name = ''out_k_0a'', names = [''out_k_0a'']\<rparr>, t)]
        | _ \<Rightarrow> Inl EngineExecutionFailure)\<rparr>"

text \<open>
  The output of the compiled model that carries slot \<open>s\<close>.
\<close>

definition out_port :: "string \<Rightarrow> port" where
  "out_port s = \<lparr>any_name = ''out_'' @ s, names = [''out_'' @ s]\<rparr>"

text \<open>
  Exact real arithmetic in the place of the floating-point operations, for concrete
  runs: \<open>int\<close> truncates towards zero, \<open>np.linspace\<close> spaces its points evenly and
  \<open>np.interp\<close> interpolates linearly between the sample points.
\<close>

fun interp_linear :: "real \<Rightarrow> real list \<Rightarrow> real list \<Rightarrow> real" where
  "interp_linear x (x0 # x1 # xs) (y0 # y1 # ys) =
     (if x \<le> x0 then y0
      else if x \<le> x1 then y0 + (y1 - y0) * (x - x0) / (x1 - x0)
      else interp_linear x (x1 # xs) (y1 # ys))"
| "interp_linear x xs (y0 # ys) = y0"
| "interp_linear x xs [] = 0"

definition example_float_ops :: "real float_ops" where
  "example_float_ops =
     \<lparr>fzero = 0,
      fdiv = (\<lambda>n r. real n / real_of_int r),
      fmul = (\<lambda>d r. d * real_of_int r),
      ftrunc = (\<lambda>d. if 0 \<le> d then \<lfloor>d\<rfloor> else \<lceil>d\<rceil>),
      lin_point = (\<lambda>a b n i. if n = 1 then a else a + (b - a) * real i / real (n - 1)),
      interp1 = interp_linear,
      as_float32 = (\<lambda>x. x)\<rparr>"

definition example_audio :: "real audio" where
  "example_audio = \<lparr>dtype = Float64, samples = [0, 1, 0, - 1]\<rparr>"




section \<open>Facts about dictionaries\<close>

lemma map_of_dict_set: "map_of (dict_set d k v) = (map_of d)(k \<mapsto> v)"
  by (induction d) (auto simp: fun_eq_iff)

lemma keys_dict_set_present:
  "map_of d k \<noteq> None \<Longrightarrow> map fst (dict_set d k v) = map fst d"
  by (induction d) auto

lemma keys_dict_set_absent:
  "map_of d k = None \<Longrightarrow> dict_set d k v = d @ [(k, v)]"
  by (induction d) (auto split: if_splits)

section \<open>Propagation of errors\<close>

lemma and_then_Inl [simp]: "and_then (Inl e) f = Inl e"
  by (simp add: and_then_def)

lemma and_then_Inr [simp]: "and_then (Inr v) f = f v"
  by (simp add: and_then_def)

lemma and_then_eq_Inr: "and_then m f = Inr r \<longleftrightarrow> (\<exists>v. m = Inr v \<and> f v = Inr r)"
  by (cases m) auto

section \<open>The growth policy of a cache slot\<close>

lemma save_to_cache_lookup:
  assumes "save_to_cache pes cache module_name output = Inr (c', r)"
  shows "map_of c' = (map_of cache)(module_name \<mapsto> r)"
  using assms
  by (auto simp: save_to_cache_def map_of_dict_set
      split: option.splits if_splits sum.splits)

text \<open>
  Claim C3, as the code has it. A store replaces the slot by the new value exactly when
  the slot is not in the cache yet or the NEW value is longer than the positional
  embedding table; otherwise the new value is appended to the slot along the sequence
  axis (and the store fails when the batch or feature sizes disagree). The length the
  slot already has plays no part.
\<close>

theorem save_to_cache_policy:
  "(map_of c m = None \<or> pes < seqlen new \<longrightarrow>
      save_to_cache pes c m new = Inr (dict_set c m new, new))
   \<and> (map_of c m = Some old \<and> seqlen new \<le> pes
        \<and> batch old = batch new \<and> feat old = feat new \<longrightarrow>
      (\<exists>c' t. save_to_cache pes c m new = Inr (c', t)
         \<and> map_of c' = (map_of c)(m \<mapsto> t)
         \<and> batch t = batch old \<and> feat t = feat old
         \<and> seqlen t = seqlen old + seqlen new
         \<and> cells t = map2 (@) (cells old) (cells new)))
   \<and> (map_of c m = Some old \<and> seqlen new \<le> pes
        \<and> (batch old \<noteq> batch new \<or> feat old \<noteq> feat new) \<longrightarrow>
      save_to_cache pes c m new = Inl ShapeMismatch)"
  by (auto simp: save_to_cache_def torch_cat_def map_of_dict_set split: option.splits)

theorem save_to_cache_policy_witness:
  "save_to_cache 2 [] ''k_0a'' (tens 1 [[1]]) = Inr ([(''k_0a'', tens 1 [[1]])], tens 1 [[1::int]])
   \<and> (\<exists>c' t. save_to_cache 2 [(''k_0a'', tens 1 [[1, 2]])] ''k_0a'' (tens 1 [[3::int]]) = Inr (c', t)
         \<and> map_of c' ''k_0a'' = Some t \<and> seqlen t = 3 \<and> cells t = [[1, 2, 3]])
   \<and> save_to_cache 2 [(''k_0a'', tens 1 [[1, 2]])] ''k_0a'' (tens 1 [[3::int], [4]]) = Inl ShapeMismatch"
  using save_to_cache_policy [of "[]" "''k_0a''" 2 "tens 1 [[1::int]]"]
    save_to_cache_policy [of "[(''k_0a'', tens 1 [[1, 2]])]" "''k_0a''" 2 "tens 1 [[3::int]]"
      "tens 1 [[1, 2]]"]
    save_to_cache_policy [of "[(''k_0a'', tens 1 [[1, 2]])]" "''k_0a''" 2 "tens 1 [[3::int], [4]]"
      "tens 1 [[1, 2]]"]
  by (auto simp: tens_def)

theorem save_to_cache_policy_counterexample:
  "save_to_cache 2 [(''k_0a'', tens 1 [[1, 2]])] ''k_0a'' (tens 1 [[3::int]])
     = Inr ([(''k_0a'', tens 1 [[1, 2, 3]])], tens 1 [[1, 2, 3]])
   \<and> save_to_cache 2 [(''k_0a'', tens 1 [[1, 2]])] ''k_0a'' (tens 1 [[3::int]])
     \<noteq> Inr ([(''k_0a'', tens 1 [[3]])], tens 1 [[3]])
   \<and> save_to_cache 2 [(''k_0a'', tens 1 [[1]])] ''k_0a'' (tens 1 [[3::int, 4, 5]])
     = Inr ([(''k_0a'', tens 1 [[3, 4, 5]])], tens 1 [[3, 4, 5]])"
  by (simp add: save_to_cache_def torch_cat_def tens_def)

section \<open>Slot names\<close>

text \<open>
  The decimal digits of a number determine it, so the slots of different blocks have
  different names, as have the four slots of one block.
\<close>

lemma digit_char_inj: "a < 10 \<Longrightarrow> b < 10 \<Longrightarrow> digit_char a = digit_char b \<Longrightarrow> a = b"
  by (simp add: digit_char_def char_of_eq_iff take_bit_eq_mod)

lemma string_of_nat_nonempty: "string_of_nat n \<noteq> []"
  by (subst string_of_nat.simps) simp

lemma string_of_nat_last: "last (string_of_nat n) = digit_char (n mod 10)"
  by (subst string_of_nat.simps) simp

lemma string_of_nat_butlast:
  "butlast (string_of_nat n) = (if n < 10 then [] else string_of_nat (n div 10))"
  by (subst string_of_nat.simps) simp

lemma string_of_nat_inj: "string_of_nat m = string_of_nat n \<Longrightarrow> m = n"
proof (induction m arbitrary: n rule: less_induct)
  case (less m)
  have l: "digit_char (m mod 10) = digit_char (n mod 10)"
    using less.prems string_of_nat_last by metis
  then have md: "m mod 10 = n mod 10"
    by (intro digit_char_inj) auto
  have b: "butlast (string_of_nat m) = butlast (string_of_nat n)"
    using less.prems by simp
  show ?case
  proof (cases "m < 10")
    case True
    then have "n < 10"
      using b string_of_nat_nonempty [of "n div 10"]
      by (auto simp: string_of_nat_butlast split: if_splits)
    with True md show ?thesis by simp
  next
    case False
    then have n: "\<not> n < 10"
      using b string_of_nat_nonempty [of "m div 10"]
      by (auto simp: string_of_nat_butlast split: if_splits)
    with False b have "string_of_nat (m div 10) = string_of_nat (n div 10)"
      by (simp add: string_of_nat_butlast)
    moreover have "m div 10 < m" using False by simp
    ultimately have "m div 10 = n div 10" using less.IH by blast
    with md show ?thesis
      by (metis div_mult_mod_eq)
  qed
qed

lemma slot_names_distinct [simp]:
  "self_key i \<noteq> self_val j" "self_key i \<noteq> cross_key j" "self_key i \<noteq> cross_val j"
  "self_val i \<noteq> cross_key j" "self_val i \<noteq> cross_val j" "cross_key i \<noteq> cross_val j"
  "self_val j \<noteq> self_key i" "cross_key j \<noteq> self_key i" "cross_val j \<noteq> self_key i"
  "cross_key j \<noteq> self_val i" "cross_val j \<noteq> self_val i" "cross_val j \<noteq> cross_key i"
  by (auto simp: self_key_def self_val_def cross_key_def cross_val_def)

lemma slot_names_inj [simp]:
  "self_key i = self_key j \<longleftrightarrow> i = j" "self_val i = self_val j \<longleftrightarrow> i = j"
  "cross_key i = cross_key j \<longleftrightarrow> i = j" "cross_val i = cross_val j \<longleftrightarrow> i = j"
  by (auto simp: self_key_def self_val_def cross_key_def cross_val_def dest: string_of_nat_inj)

section \<open>The effect of a decoder call on the cache\<close>

text \<open>
  A store leaves a slot of length \<open>grow pes t l\<close>; \<open>attention_forward\<close> stores the
  key and the value projection and touches no other slot; a block touches its own four
  slots only; so a successful call of \<open>decoder_forward\<close> grows every self-attention
  slot by the number of tokens of the call.
\<close>

lemma save_to_cache_len:
  assumes "save_to_cache pes c m output = Inr (c', r)"
  shows "seqlen r = grow pes (seqlen output) (slot_len c m)"
  using assms
  by (auto simp: save_to_cache_def torch_cat_def slot_len_def
      split: option.splits if_splits sum.splits)

lemma cached_kv_Some:
  assumes "cached_kv pes am x xa (Some c) idx = Inr (k, v, kv')"
  shows "\<exists>c1 c2. save_to_cache pes c (''k_'' @ idx) (key am (case xa of None \<Rightarrow> x | Some a \<Rightarrow> a)) = Inr (c1, k)
           \<and> save_to_cache pes c1 (''v_'' @ idx) (val am (case xa of None \<Rightarrow> x | Some a \<Rightarrow> a)) = Inr (c2, v)
           \<and> kv' = Some c2"
proof (cases xa)
  case None
  with assms show ?thesis
    by (auto simp: and_then_eq_Inr)
next
  case (Some a)
  with assms obtain c1 dk c2 dv where
    1: "save_to_cache pes c (''k_'' @ idx) (key am a) = Inr (c1, dk)" and
    2: "save_to_cache pes c1 (''v_'' @ idx) (val am a) = Inr (c2, dv)" and
    k: "k = (case map_of c1 (''k_'' @ idx) of Some t \<Rightarrow> t | None \<Rightarrow> dk)" and
    v: "v = (case map_of c2 (''v_'' @ idx) of Some t \<Rightarrow> t | None \<Rightarrow> dv)" and
    kv: "kv' = Some c2"
    by (auto simp: and_then_eq_Inr Let_def)
  from 1 k have "k = dk" by (simp add: save_to_cache_lookup)
  moreover from 2 v have "v = dv" by (simp add: save_to_cache_lookup)
  ultimately show ?thesis using 1 2 kv Some by simp
qed

lemma shape_eq_iff: "shape a = shape b \<longleftrightarrow> batch a = batch b \<and> seqlen a = seqlen b \<and> feat a = feat b"
  by (auto simp: shape_def)

lemma keeps_shapeD: "keeps_shape f \<Longrightarrow> shape (f x) = shape x"
  by (simp add: keeps_shape_def)

lemma attention_forward_effect:
  assumes run: "attention_forward pes am x xa m (Some c) idx = Inr (y, kv')"
    and ok: "attention_ok am"
  shows "\<exists>c' k v. kv' = Some c' \<and> shape y = shape x
           \<and> map_of c' = (map_of c)(''k_'' @ idx \<mapsto> k, ''v_'' @ idx \<mapsto> v)
           \<and> seqlen k = grow pes (seqlen (case xa of None \<Rightarrow> x | Some a \<Rightarrow> a)) (slot_len c (''k_'' @ idx))
           \<and> seqlen v = grow pes (seqlen (case xa of None \<Rightarrow> x | Some a \<Rightarrow> a)) (slot_len c (''v_'' @ idx))"
proof -
  let ?src = "case xa of None \<Rightarrow> x | Some a \<Rightarrow> a"
  from run obtain k v kv1 wv where
    ckv: "cached_kv pes am x xa (Some c) idx = Inr (k, v, kv1)" and
    att: "qkv_attention am (query am x) k v m = Inr wv" and
    y: "y = out am wv" and kv: "kv' = kv1"
    by (auto simp: attention_forward_def and_then_eq_Inr Let_def)
  from cached_kv_Some [OF ckv] obtain c1 c2 where
    1: "save_to_cache pes c (''k_'' @ idx) (key am ?src) = Inr (c1, k)" and
    2: "save_to_cache pes c1 (''v_'' @ idx) (val am ?src) = Inr (c2, v)" and
    kv1: "kv1 = Some c2"
    by blast
  have kq: "keeps_shape (query am)" "keeps_shape (key am)" "keeps_shape (val am)" "keeps_shape (out am)"
    using ok by (simp_all add: attention_ok_def)
  have "shape wv = shape (query am x)"
    using ok att unfolding attention_ok_def by blast
  then have sy: "shape y = shape x"
    using kq y by (simp add: keeps_shapeD)
  have m1: "map_of c1 = (map_of c)(''k_'' @ idx \<mapsto> k)"
    using 1 by (rule save_to_cache_lookup)
  have m2: "map_of c2 = (map_of c1)(''v_'' @ idx \<mapsto> v)"
    using 2 by (rule save_to_cache_lookup)
  have ne: "''v_'' @ idx \<noteq> ''k_'' @ idx" by simp
  have lk: "seqlen k = grow pes (seqlen ?src) (slot_len c (''k_'' @ idx))"
    using save_to_cache_len [OF 1] keeps_shapeD [OF kq(2), of ?src]
    by (simp add: shape_eq_iff)
  have "slot_len c1 (''v_'' @ idx) = slot_len c (''v_'' @ idx)"
    using m1 ne by (simp add: slot_len_def)
  then have lv: "seqlen v = grow pes (seqlen ?src) (slot_len c (''v_'' @ idx))"
    using save_to_cache_len [OF 2] keeps_shapeD [OF kq(3), of ?src]
    by (simp add: shape_eq_iff)
  show ?thesis
    using kv kv1 sy m1 m2 lk lv by auto
qed

lemma tadd_okD: "tadd_ok tadd \<Longrightarrow> tadd x y = Inr r \<Longrightarrow> shape y = shape x \<Longrightarrow> shape r = shape x"
  unfolding tadd_ok_def by blast

lemma block_forward_effect:
  assumes run: "block_forward pes tadd b x xa m (Some c) i = Inr (y, kv')"
    and ok: "block_ok b" and tok: "tadd_ok tadd"
  shows "\<exists>c'. kv' = Some c' \<and> shape y = shape x
           \<and> slot_len c' (self_key i) = Some (grow pes (seqlen x) (slot_len c (self_key i)))
           \<and> slot_len c' (self_val i) = Some (grow pes (seqlen x) (slot_len c (self_val i)))
           \<and> (\<forall>n. n \<noteq> self_key i \<and> n \<noteq> self_val i \<and> n \<noteq> cross_key i \<and> n \<noteq> cross_val i
                 \<longrightarrow> map_of c' n = map_of c n)"
proof -
  from run obtain x0 kv1 x1 x3 kv3 x4 where
    a: "attention_forward pes (attn b) (attn_ln b x) None m (Some c) (string_of_nat i @ ''a'') = Inr (x0, kv1)" and
    p1: "tadd x x0 = Inr x1" and
    cr: "(case cross_attn b of
            None \<Rightarrow> Inr (x1, kv1)
          | Some ca \<Rightarrow>
              and_then (attention_forward pes ca (cross_attn_ln b x1) xa False kv1 (string_of_nat i @ ''c'')) (\<lambda>(xc, kv2).
              and_then (tadd x1 xc) (\<lambda>x2. Inr (x2, kv2)))) = Inr (x3, kv3)" and
    p4: "tadd x3 (mlp b (mlp_ln b x3)) = Inr x4" and
    res: "y = x4" "kv' = kv3"
    by (auto simp: block_forward_def and_then_eq_Inr)
  have oks: "attention_ok (attn b)" "keeps_shape (attn_ln b)" "keeps_shape (cross_attn_ln b)"
    "keeps_shape (mlp b)" "keeps_shape (mlp_ln b)"
    using ok by (simp_all add: block_ok_def)
  from attention_forward_effect [OF a oks(1)] obtain c1 k v where
    kv1: "kv1 = Some c1" and s0: "shape x0 = shape (attn_ln b x)" and
    m1: "map_of c1 = (map_of c)(self_key i \<mapsto> k, self_val i \<mapsto> v)" and
    lk: "seqlen k = grow pes (seqlen (attn_ln b x)) (slot_len c (self_key i))" and
    lv: "seqlen v = grow pes (seqlen (attn_ln b x)) (slot_len c (self_val i))"
    by (auto simp: self_key_def self_val_def)
  have sl: "seqlen (attn_ln b x) = seqlen x"
    using keeps_shapeD [OF oks(2), of x] by (simp add: shape_eq_iff)
  have s1: "shape x1 = shape x"
    using tadd_okD [OF tok p1] s0 keeps_shapeD [OF oks(2), of x] by simp
  have "\<exists>c3. kv3 = Some c3 \<and> shape x3 = shape x
          \<and> (\<forall>n. n \<noteq> cross_key i \<and> n \<noteq> cross_val i \<longrightarrow> map_of c3 n = map_of c1 n)"
  proof (cases "cross_attn b")
    case None
    with cr kv1 s1 show ?thesis by auto
  next
    case (Some ca)
    with cr obtain xc kv2 x2 where
      ac: "attention_forward pes ca (cross_attn_ln b x1) xa False (Some c1) (string_of_nat i @ ''c'') = Inr (xc, kv2)" and
      p2: "tadd x1 xc = Inr x2" and r2: "x3 = x2" "kv3 = kv2"
      using kv1 by (auto simp: and_then_eq_Inr)
    have cok: "attention_ok ca" using ok Some by (simp add: block_ok_def)
    from attention_forward_effect [OF ac cok] obtain c2 kc vc where
      kv2: "kv2 = Some c2" and sc: "shape xc = shape (cross_attn_ln b x1)" and
      m2: "map_of c2 = (map_of c1)(cross_key i \<mapsto> kc, cross_val i \<mapsto> vc)"
      by (auto simp: cross_key_def cross_val_def)
    have "shape x2 = shape x1"
      using tadd_okD [OF tok p2] sc keeps_shapeD [OF oks(3), of x1] by simp
    with s1 r2 kv2 m2 show ?thesis by simp
  qed
  then obtain c3 where kv3: "kv3 = Some c3" and s3: "shape x3 = shape x" and
    m3: "\<And>n. n \<noteq> cross_key i \<Longrightarrow> n \<noteq> cross_val i \<Longrightarrow> map_of c3 n = map_of c1 n"
    by blast
  have "shape (mlp b (mlp_ln b x3)) = shape x3"
    using keeps_shapeD [OF oks(4)] keeps_shapeD [OF oks(5)] by simp
  then have s4: "shape x4 = shape x"
    using tadd_okD [OF tok p4] s3 by simp
  have k3: "map_of c3 (self_key i) = Some k" using m3 [of "self_key i"] m1 by simp
  have v3: "map_of c3 (self_val i) = Some v" using m3 [of "self_val i"] m1 by simp
  have other: "\<forall>n. n \<noteq> self_key i \<and> n \<noteq> self_val i \<and> n \<noteq> cross_key i \<and> n \<noteq> cross_val i
                 \<longrightarrow> map_of c3 n = map_of c n"
    using m3 m1 by simp
  show ?thesis
    using res kv3 s4 k3 v3 lk lv sl other by (simp add: slot_len_def)
qed

lemma forward_blocks_effect:
  assumes "forward_blocks pes tadd bs idx x xa (Some c) = Inr (y, kv')"
    and "list_all block_ok bs" and tok: "tadd_ok tadd"
  shows "\<exists>c'. kv' = Some c' \<and> shape y = shape x
           \<and> (\<forall>j. idx \<le> j \<and> j < idx + length bs \<longrightarrow>
                 slot_len c' (self_key j) = Some (grow pes (seqlen x) (slot_len c (self_key j)))
                 \<and> slot_len c' (self_val j) = Some (grow pes (seqlen x) (slot_len c (self_val j))))
           \<and> (\<forall>n. (\<forall>j. idx \<le> j \<and> j < idx + length bs \<longrightarrow>
                       n \<noteq> self_key j \<and> n \<noteq> self_val j \<and> n \<noteq> cross_key j \<and> n \<noteq> cross_val j)
                 \<longrightarrow> map_of c' n = map_of c n)"
  using assms(1,2)
proof (induction bs arbitrary: idx x c)
  case Nil
  then show ?case by auto
next
  case (Cons b bs)
  from Cons.prems obtain x1 kv1 where
    b: "block_forward pes tadd b x xa True (Some c) idx = Inr (x1, kv1)" and
    r: "forward_blocks pes tadd bs (Suc idx) x1 xa kv1 = Inr (y, kv')"
    by (auto simp: and_then_eq_Inr)
  have okb: "block_ok b" and okbs: "list_all block_ok bs"
    using Cons.prems by simp_all
  from block_forward_effect [OF b okb tok] obtain c1 where
    kv1: "kv1 = Some c1" and s1: "shape x1 = shape x" and
    k1: "slot_len c1 (self_key idx) = Some (grow pes (seqlen x) (slot_len c (self_key idx)))" and
    v1: "slot_len c1 (self_val idx) = Some (grow pes (seqlen x) (slot_len c (self_val idx)))" and
    o1: "\<And>n. n \<noteq> self_key idx \<Longrightarrow> n \<noteq> self_val idx \<Longrightarrow> n \<noteq> cross_key idx
             \<Longrightarrow> n \<noteq> cross_val idx \<Longrightarrow> map_of c1 n = map_of c n"
    by blast
  from Cons.IH [OF r [unfolded kv1] okbs] obtain c' where
    kv': "kv' = Some c'" and s2: "shape y = shape x1" and
    k2: "\<And>j. Suc idx \<le> j \<Longrightarrow> j < Suc idx + length bs \<Longrightarrow>
             slot_len c' (self_key j) = Some (grow pes (seqlen x1) (slot_len c1 (self_key j)))
             \<and> slot_len c' (self_val j) = Some (grow pes (seqlen x1) (slot_len c1 (self_val j)))" and
    o2: "\<And>n. (\<forall>j. Suc idx \<le> j \<and> j < Suc idx + length bs \<longrightarrow>
                  n \<noteq> self_key j \<and> n \<noteq> self_val j \<and> n \<noteq> cross_key j \<and> n \<noteq> cross_val j)
             \<Longrightarrow> map_of c' n = map_of c1 n"
    by blast
  have sl: "seqlen x1 = seqlen x" using s1 by (simp add: shape_eq_iff)
  have slots: "slot_len c' (self_key j) = Some (grow pes (seqlen x) (slot_len c (self_key j)))
               \<and> slot_len c' (self_val j) = Some (grow pes (seqlen x) (slot_len c (self_val j)))"
    if j: "idx \<le> j" "j < idx + length (b # bs)" for j
  proof (cases "j = idx")
    case True
    have "map_of c' (self_key idx) = map_of c1 (self_key idx)"
      by (rule o2) auto
    moreover have "map_of c' (self_val idx) = map_of c1 (self_val idx)"
      by (rule o2) auto
    ultimately show ?thesis
      using True k1 v1 by (simp add: slot_len_def)
  next
    case False
    then have j': "Suc idx \<le> j" "j < Suc idx + length bs" using j by simp_all
    have "map_of c1 (self_key j) = map_of c (self_key j)"
      using False by (intro o1) simp_all
    moreover have "map_of c1 (self_val j) = map_of c (self_val j)"
      using False by (intro o1) simp_all
    ultimately show ?thesis
      using k2 [OF j'] sl by (simp add: slot_len_def)
  qed
  have others: "map_of c' n = map_of c n"
    if n: "\<forall>j. idx \<le> j \<and> j < idx + length (b # bs) \<longrightarrow>
              n \<noteq> self_key j \<and> n \<noteq> self_val j \<and> n \<noteq> cross_key j \<and> n \<noteq> cross_val j" for n
  proof -
    have "map_of c' n = map_of c1 n"
      using n by (intro o2) auto
    moreover have "map_of c1 n = map_of c n"
      using n by (intro o1) auto
    ultimately show ?thesis by simp
  qed
  show ?case
    using kv' s2 s1 slots others by auto
qed

lemma decoder_forward_effect:
  assumes run: "decoder_forward pes tadd d x xa (Some c) = Inr (lg, kv')"
    and ok: "decoder_ok d" and tok: "tadd_ok tadd"
  shows "\<exists>c'. kv' = Some c'
           \<and> (\<forall>j < length (blocks d).
                 slot_len c' (self_key j) = Some (grow pes (tok_len x) (slot_len c (self_key j)))
                 \<and> slot_len c' (self_val j) = Some (grow pes (tok_len x) (slot_len c (self_val j))))"
proof -
  from run obtain x1 a x2 where
    e: "embed d (cache_offset (Some c)) x = Inr x1" and xa: "xa = Some a" and
    f: "forward_blocks pes tadd (blocks d) 0 x1 xa (Some c) = Inr (x2, kv')"
    by (auto simp: decoder_forward_def and_then_eq_Inr Let_def split: option.splits)
  have "seqlen x1 = tok_len x"
    using ok e unfolding decoder_ok_def by blast
  moreover have "list_all block_ok (blocks d)"
    using ok by (simp add: decoder_ok_def)
  ultimately show ?thesis
    using forward_blocks_effect [OF f _ tok] by auto
qed

lemma run_steps_len:
  assumes "run_steps pes tadd d (Some c) steps = Inr kv"
    and ok: "decoder_ok d" and tok: "tadd_ok tadd"
    and "list_all (\<lambda>(x, xa). tok_len x \<le> pes) steps"
    and i: "i < length (blocks d)"
    and "slot_len c (self_key i) = Some lk" and "slot_len c (self_val i) = Some lv"
  shows "\<exists>c'. kv = Some c'
           \<and> slot_len c' (self_key i) = Some (lk + sum_list (map (\<lambda>(x, xa). tok_len x) steps))
           \<and> slot_len c' (self_val i) = Some (lv + sum_list (map (\<lambda>(x, xa). tok_len x) steps))"
  using assms(1,4,6,7)
proof (induction steps arbitrary: c lk lv)
  case Nil
  then show ?case by auto
next
  case (Cons s steps)
  obtain x xa where s: "s = (x, xa)" by (cases s)
  from Cons.prems(1) s obtain lg kv1 where
    d: "decoder_forward pes tadd d x xa (Some c) = Inr (lg, kv1)" and
    r: "run_steps pes tadd d kv1 steps = Inr kv"
    by (auto simp: and_then_eq_Inr)
  have le: "tok_len x \<le> pes" and rest: "list_all (\<lambda>(x, xa). tok_len x \<le> pes) steps"
    using Cons.prems(2) s by simp_all
  from decoder_forward_effect [OF d ok tok] i obtain c1 where
    kv1: "kv1 = Some c1" and
    k1: "slot_len c1 (self_key i) = Some (grow pes (tok_len x) (slot_len c (self_key i)))" and
    v1: "slot_len c1 (self_val i) = Some (grow pes (tok_len x) (slot_len c (self_val i)))"
    by blast
  have k1': "slot_len c1 (self_key i) = Some (lk + tok_len x)"
    using k1 le Cons.prems(3) by simp
  have v1': "slot_len c1 (self_val i) = Some (lv + tok_len x)"
    using v1 le Cons.prems(4) by simp
  from Cons.IH [OF r [unfolded kv1] rest k1' v1'] show ?case
    using s by (simp add: add.assoc)
qed

lemma decoder_forward_no_features:
  "decoder_forward pes tadd d x None kv
     = (case embed d (cache_offset kv) x of Inl e \<Rightarrow> Inl e | Inr x1 \<Rightarrow> Inl MissingFeatures)"
  by (simp add: decoder_forward_def and_then_def split: sum.splits)

text \<open>
  \<open>decoder_forward\<close> reads \<open>xa.dtype\<close> on every call, so a run that succeeds was
  given features at every step.
\<close>

lemma run_steps_features:
  "run_steps pes tadd d kv steps = Inr kv' \<Longrightarrow> list_all (\<lambda>(x, xa). xa \<noteq> None) steps"
proof (induction steps arbitrary: kv)
  case Nil
  then show ?case by simp
next
  case (Cons s steps)
  obtain x xa where s: "s = (x, xa)" by (cases s)
  from Cons.prems s obtain lg kv1 where
    d: "decoder_forward pes tadd d x xa kv = Inr (lg, kv1)" and
    r: "run_steps pes tadd d kv1 steps = Inr kv'"
    by (auto simp: and_then_eq_Inr)
  have "xa \<noteq> None"
  proof
    assume "xa = None"
    with d show False
      by (simp add: decoder_forward_no_features split: sum.splits)
  qed
  with Cons.IH [OF r] s show ?case by simp
qed

section \<open>The length of the self-attention slots\<close>

text \<open>
  Claim C1, as the code has it. A decoding run on the patched decoder starts on the
  empty cache and feeds the token batches of its steps in order. When the run succeeds,
  every step of it supplied encoder features (a step without features fails, the first
  and every later one), and if no step after the first feeds more tokens than the
  positional embedding has rows (so no store replaces a slot), the key slot and the
  value slot of the self-attention of every block have, after the run, a sequence length
  equal to the sum of the token counts of the steps. The modules of the network are
  assumed to keep shapes, as the library's do.
\<close>

theorem self_attention_slot_length:
  assumes ok: "decoder_ok d" and tok: "tadd_ok tadd"
    and run: "run_steps pes tadd d (Some []) ((x1, xa1) # steps) = Inr kv"
    and later: "list_all (\<lambda>(x, xa). tok_len x \<le> pes) steps"
    and i: "i < length (blocks d)"
  shows "list_all (\<lambda>(x, xa). xa \<noteq> None) ((x1, xa1) # steps)
     \<and> (\<exists>c. kv = Some c
           \<and> slot_len c (self_key i) = Some (sum_list (map (\<lambda>(x, xa). tok_len x) ((x1, xa1) # steps)))
           \<and> slot_len c (self_val i) = Some (sum_list (map (\<lambda>(x, xa). tok_len x) ((x1, xa1) # steps))))"
proof -
  from run obtain lg kv1 where
    d: "decoder_forward pes tadd d x1 xa1 (Some []) = Inr (lg, kv1)" and
    r: "run_steps pes tadd d kv1 steps = Inr kv"
    by (auto simp: and_then_eq_Inr)
  from decoder_forward_effect [OF d ok tok] i obtain c1 where
    kv1: "kv1 = Some c1" and
    k1: "slot_len c1 (self_key i) = Some (tok_len x1)" and
    v1: "slot_len c1 (self_val i) = Some (tok_len x1)"
    by (auto simp: slot_len_def)
  have f: "list_all (\<lambda>(x, xa). xa \<noteq> None) ((x1, xa1) # steps)"
    using run by (rule run_steps_features)
  from run_steps_len [OF r [unfolded kv1] ok tok later i k1 v1] f show ?thesis
    by simp
qed

lemma example_ok: "decoder_ok example_decoder" "tadd_ok example_tadd"
  by (auto simp: decoder_ok_def example_decoder_def block_ok_def example_block_def
      attention_ok_def example_attention_def keeps_shape_def tadd_ok_def example_tadd_def
      shape_def)

theorem self_attention_slot_length_witness:
  "\<exists>c. run_steps 4 example_tadd example_decoder (Some [])
          [(toks [[1, 2]], Some example_features), (toks [[3]], Some example_features)] = Inr (Some c)
       \<and> slot_len c (self_key 0) = Some 3 \<and> slot_len c (self_val 0) = Some 3"
proof -
  have run: "run_steps 4 example_tadd example_decoder (Some [])
          [(toks [[1, 2]], Some example_features), (toks [[3]], Some example_features)]
        = Inr (Some [(''k_0a'', tens 1 [[1, 2, 3]]), (''v_0a'', tens 1 [[1, 2, 3]]),
                     (''k_0c'', example_features), (''v_0c'', example_features)])"
    by code_simp
  have later: "list_all (\<lambda>(x, xa). tok_len x \<le> 4) [(toks [[3]], Some example_features)]"
    by (simp add: toks_def)
  have i: "0 < length (blocks example_decoder)"
    by (simp add: example_decoder_def)
  from self_attention_slot_length [OF example_ok run later i] show ?thesis
    using run by (simp add: toks_def)
qed

text \<open>
  The claim as stated fails: it counts a later call that supplies only new tokens, and
  no features, as a step of the run. The first step succeeds and the second, without
  features, fails: there is no cache after it.
\<close>

theorem self_attention_slot_length_counterexample:
  "run_steps 4 example_tadd example_decoder (Some []) [(toks [[1, 2]], Some example_features)]
     = Inr (Some [(''k_0a'', tens 1 [[1, 2]]), (''v_0a'', tens 1 [[1, 2]]),
                  (''k_0c'', example_features), (''v_0c'', example_features)])
   \<and> run_steps 4 example_tadd example_decoder (Some [])
       [(toks [[1, 2]], Some example_features), (toks [[3]], None)]
     = Inl MissingFeatures"
  by code_simp

section \<open>The run of the inference wrapper\<close>

text \<open>
  On the patched decoder the calls of \<open>logits\<close> are the steps of a run, with the
  tokens cut to the last one where \<open>logits\<close> cuts them. So when the first call feeds
  no more than the initial tokens and every later call feeds more (the loop of the
  library appends one token per call), the self-attention slots have, after the run, the
  length of the first token batch plus one position per later call.
\<close>

lemma run_logits_steps:
  "run_logits (decoder_forward pes tadd d) itl kv calls
     = run_steps pes tadd d kv
         (map (\<lambda>(x, af). (if tok_len x > itl then last_token x else x, af)) calls)"
  by (induction calls arbitrary: kv) (auto simp: logits_def Let_def)

lemma inference_slot_length:
  assumes ok: "decoder_ok d" and tok: "tadd_ok tadd"
    and run: "run_logits (decoder_forward pes tadd d) itl (Some []) ((x1, af1) # calls) = Inr kv"
    and first: "tok_len x1 \<le> itl"
    and later: "list_all (\<lambda>(x, af). tok_len x > itl) calls"
    and pes: "1 \<le> pes"
    and i: "i < length (blocks d)"
  shows "\<exists>c. kv = Some c
           \<and> slot_len c (self_key i) = Some (tok_len x1 + length calls)
           \<and> slot_len c (self_val i) = Some (tok_len x1 + length calls)"
proof -
  let ?cut = "\<lambda>(x, af). (if tok_len x > itl then last_token x else x, af)"
  have "run_steps pes tadd d (Some []) (map ?cut ((x1, af1) # calls)) = Inr kv"
    using run by (simp only: run_logits_steps)
  with first obtain lg kv1 where
    d: "decoder_forward pes tadd d x1 af1 (Some []) = Inr (lg, kv1)" and
    r: "run_steps pes tadd d kv1 (map ?cut calls) = Inr kv"
    by (auto simp: and_then_eq_Inr)
  from decoder_forward_effect [OF d ok tok] i obtain c1 where
    kv1: "kv1 = Some c1" and
    k1: "slot_len c1 (self_key i) = Some (tok_len x1)" and
    v1: "slot_len c1 (self_val i) = Some (tok_len x1)"
    by (auto simp: slot_len_def)
  have one: "sum_list (map (\<lambda>(x, xa). tok_len x) (map ?cut calls)) = length calls"
    using later by (induction calls) (auto simp: last_token_def)
  have le: "list_all (\<lambda>(x, xa). tok_len x \<le> pes) (map ?cut calls)"
    using later pes by (induction calls) (auto simp: last_token_def)
  from run_steps_len [OF r [unfolded kv1] ok tok le i k1 v1] show ?thesis
    unfolding one .
qed

section \<open>The cross-attention slots\<close>

text \<open>
  Claim C2 says that a cross-attention slot is computed on the first step and never
  again. In \<open>attention_forward\<close> the store is the default argument of \<open>get\<close>, which
  Python evaluates on every call (lemma \<open>cached_kv_Some\<close>): every step stores the
  projection of the features of THAT step. Here the second step is given other features
  than the first, five positions long with a bound of four: after it the slots
  \<open>k_0c\<close> and \<open>v_0c\<close> hold the projection of the second features.
\<close>

theorem cross_attention_slot_recomputed:
  "run_steps 4 example_tadd example_decoder (Some []) [(toks [[1, 2]], Some example_features)]
     = Inr (Some [(''k_0a'', tens 1 [[1, 2]]), (''v_0a'', tens 1 [[1, 2]]),
                  (''k_0c'', example_features), (''v_0c'', example_features)])
   \<and> run_steps 4 example_tadd example_decoder (Some [])
       [(toks [[1, 2]], Some example_features), (toks [[3]], Some other_features)]
     = Inr (Some [(''k_0a'', tens 1 [[1, 2, 3]]), (''v_0a'', tens 1 [[1, 2, 3]]),
                  (''k_0c'', other_features), (''v_0c'', other_features)])
   \<and> other_features \<noteq> example_features"
  by code_simp

text \<open>
  With features no longer than the bound the second store appends: the same features
  twice leave a cross-attention slot of twice the length.
\<close>

lemma cross_attention_slot_appended:
  "run_steps 4 example_tadd example_decoder (Some []) [(toks [[1, 2]], Some short_features)]
     = Inr (Some [(''k_0a'', tens 1 [[1, 2]]), (''v_0a'', tens 1 [[1, 2]]),
                  (''k_0c'', tens 1 [[7, 8]]), (''v_0c'', tens 1 [[7, 8]])])
   \<and> run_steps 4 example_tadd example_decoder (Some [])
       [(toks [[1, 2]], Some short_features), (toks [[3]], Some short_features)]
     = Inr (Some [(''k_0a'', tens 1 [[1, 2, 3]]), (''v_0a'', tens 1 [[1, 2, 3]]),
                  (''k_0c'', tens 1 [[7, 8, 7, 8]]), (''v_0c'', tens 1 [[7, 8, 7, 8]])])"
  by code_simp

section \<open>Re-indexing the batch axis\<close>

lemma dict_set_middle:
  "k \<notin> fst ` set xs \<Longrightarrow> dict_set (xs @ (k, v) # ys) k v' = xs @ (k, v') # ys"
  by (induction xs) auto

lemma index_select_valid:
  "list_all (\<lambda>i. 0 \<le> i \<and> i < int (batch t)) idx \<Longrightarrow> index_select t idx = Inr (gather t idx)"
  by (auto simp: index_select_def gather_def list_all_iff)

text \<open>
  The loop of \<open>rearrange_kv_cache\<close>, after the items in \<open>pre\<close> and before those in
  \<open>rest\<close>.
\<close>

lemma rearrange_fold:
  assumes "distinct (map fst (pre @ rest))"
    and "list_all (\<lambda>(m, t). list_all (\<lambda>i. 0 \<le> i \<and> i < int (batch t)) idx) rest"
  shows "fold (\<lambda>(module_name, tensor) acc.
             and_then acc (\<lambda>c.
             and_then (index_select tensor idx) (\<lambda>t.
             Inr (dict_set c module_name t))))
          rest (Inr (pre @ rest))
         = Inr (pre @ map (\<lambda>(m, t). (m, gather t idx)) rest)"
  using assms
proof (induction rest arbitrary: pre)
  case Nil
  then show ?case by simp
next
  case (Cons p rest)
  obtain m t where p: "p = (m, t)" by (cases p)
  have v: "index_select t idx = Inr (gather t idx)"
    using Cons.prems(2) p by (simp add: index_select_valid)
  have nin: "m \<notin> fst ` set pre"
    using Cons.prems(1) p by auto
  have d: "distinct (map fst ((pre @ [(m, gather t idx)]) @ rest))"
    using Cons.prems(1) p by auto
  have r: "list_all (\<lambda>(m, t). list_all (\<lambda>i. 0 \<le> i \<and> i < int (batch t)) idx) rest"
    using Cons.prems(2) by simp
  show ?case
    using Cons.IH [OF d r] p v nin by (simp add: dict_set_middle)
qed

text \<open>
  Claim C4. For a cache (a dictionary: its keys are distinct) and a list of valid batch
  indices, \<open>rearrange_kv_cache\<close> returns a cache with the same slot names in the same
  order; every slot keeps its sequence length and feature size, its batch size is the
  length of the index list, and its row at position \<open>p\<close> is the old row at index
  \<open>source_indices[p]\<close>.
\<close>

theorem rearrange_kv_cache_gathers:
  assumes "distinct (map fst kv)"
    and "list_all (\<lambda>(m, t). list_all (\<lambda>i. 0 \<le> i \<and> i < int (batch t)) source_indices) kv"
  shows "\<exists>kv'. rearrange_kv_cache kv source_indices = Inr kv'
           \<and> map fst kv' = map fst kv
           \<and> (\<forall>m t. map_of kv m = Some t \<longrightarrow>
                 (\<exists>t'. map_of kv' m = Some t'
                    \<and> batch t' = length source_indices
                    \<and> seqlen t' = seqlen t \<and> feat t' = feat t
                    \<and> length (cells t') = length source_indices
                    \<and> (\<forall>p < length source_indices.
                          cells t' ! p = cells t ! nat (source_indices ! p))))"
proof -
  let ?g = "\<lambda>(m, t). (m, gather t source_indices)"
  have r: "rearrange_kv_cache kv source_indices = Inr (map ?g kv)"
    using rearrange_fold [of "[]" kv source_indices] assms
    by (simp add: rearrange_kv_cache_def)
  have k: "map fst (map ?g kv) = map fst kv"
    by (induction kv) auto
  have l: "map_of (map ?g kv) m = map_option (\<lambda>t. gather t source_indices) (map_of kv m)" for m
    by (induction kv) auto
  show ?thesis
    using r k l by (auto simp: gather_def)
qed

theorem rearrange_kv_cache_gathers_witness:
  "\<exists>kv' t'. rearrange_kv_cache example_cache5 [2, 2, 0] = Inr kv'
      \<and> map fst kv' = [''k_0a'', ''k_0c'']
      \<and> map_of kv' ''k_0c'' = Some t' \<and> batch t' = 3 \<and> seqlen t' = 2
      \<and> cells t' ! 0 = [24, 25] \<and> cells t' ! 1 = [24, 25] \<and> cells t' ! 2 = [20, 21]"
proof -
  have d: "distinct (map fst example_cache5)"
    by (simp add: example_cache5_def)
  have v: "list_all (\<lambda>(m, t). list_all (\<lambda>i. 0 \<le> i \<and> i < int (batch t)) [2, 2, 0]) example_cache5"
    by (simp add: example_cache5_def tens_def)
  from rearrange_kv_cache_gathers [OF d v] obtain kv' where
    r: "rearrange_kv_cache example_cache5 [2, 2, 0] = Inr kv'" and
    k: "map fst kv' = map fst example_cache5" and
    s: "\<And>m t. map_of example_cache5 m = Some t \<Longrightarrow>
          \<exists>t'. map_of kv' m = Some t' \<and> batch t' = length [2, 2, 0 :: int]
             \<and> seqlen t' = seqlen t \<and> feat t' = feat t
             \<and> length (cells t') = length [2, 2, 0 :: int]
             \<and> (\<forall>p < length [2, 2, 0 :: int]. cells t' ! p = cells t ! nat ([2, 2, 0] ! p))"
    by blast
  have m: "map_of example_cache5 ''k_0c''
             = Some (tens 1 [[20, 21], [22, 23], [24, 25], [26, 27], [28, 29]])"
    by (simp add: example_cache5_def)
  from s [OF m] obtain t' where
    t: "map_of kv' ''k_0c'' = Some t'" "batch t' = 3" "seqlen t' = 2" and
    c: "\<And>p. p < 3 \<Longrightarrow> cells t' ! p
          = cells (tens 1 [[20, 21], [22, 23], [24, 25], [26, 27], [28 :: int, 29]]) ! nat ([2, 2, 0] ! p)"
    by (auto simp: tens_def)
  have "cells t' ! 0 = [24, 25]" "cells t' ! 1 = [24, 25]" "cells t' ! 2 = [20, 21]"
    using c [of 0] c [of 1] c [of 2] by (simp_all add: tens_def)
  with r k t show ?thesis
    by (simp add: example_cache5_def)
qed

section \<open>The feed dictionary of the first step\<close>

lemma init_fold:
  "map_of (fold (\<lambda>name fd. if name \<in> S then fd else dict_set fd name v) ns fd0) n
     = (if n \<in> set ns \<and> n \<notin> S then Some v else map_of fd0 n)"
  by (induction ns arbitrary: fd0) (auto simp: map_of_dict_set)

text \<open>
  Claim C7. On a cache that is \<open>None\<close> or empty, \<open>forward\<close> runs the compiled model
  on a feed dictionary in which the tokens and the audio features are as supplied and
  every other declared input of the model is a tensor of shape
  \<open>(batch of the tokens, 0, last axis of the audio features)\<close> without cells; the
  dictionary has no other entry.
\<close>

theorem first_step_feed:
  assumes "kv = None \<or> kv = Some []"
  shows "\<exists>fd. preprocess_kv_cache_inputs z self
                 [(''tokens'', TokensIn x), (''audio_features'', TensorIn a)] kv = Inr fd
           \<and> text_decoder_forward z self x (Some a) kv
               = and_then (compiled_model self fd) (\<lambda>res. Inr (postprocess_outputs res))
           \<and> map_of fd ''tokens'' = Some (TokensIn x)
           \<and> map_of fd ''audio_features'' = Some (TensorIn a)
           \<and> (\<forall>name \<in> set (input_names self).
                 name \<noteq> ''tokens'' \<and> name \<noteq> ''audio_features'' \<longrightarrow>
                 map_of fd name
                   = Some (TensorIn \<lparr>batch = tok_batch x, seqlen = 0, feat = feat a,
                                      cells = replicate (tok_batch x) []\<rparr>))
           \<and> (\<forall>name. map_of fd name \<noteq> None \<longrightarrow>
                 name = ''tokens'' \<or> name = ''audio_features'' \<or> name \<in> set (input_names self))"
proof -
  define start where "start = [(''tokens'', TokensIn x), (''audio_features'', TensorIn a)]"
  define filled where "filled = fold (\<lambda>name fd.
                if name \<in> set [''tokens'', ''audio_features''] then fd
                else dict_set fd name (TensorIn (np_zeros z (tok_batch x) 0 (feat a))))
              (input_names self) start"
  have i: "init_past_inputs z self start = Inr filled"
    by (simp add: init_past_inputs_def start_def filled_def)
  have p: "preprocess_kv_cache_inputs z self start kv = Inr filled"
    using assms i by auto
  have f: "text_decoder_forward z self x (Some a) kv
             = and_then (compiled_model self filled) (\<lambda>res. Inr (postprocess_outputs res))"
    using p by (simp add: text_decoder_forward_def start_def)
  have z: "np_zeros z (tok_batch x) 0 (feat a)
             = \<lparr>batch = tok_batch x, seqlen = 0, feat = feat a,
                cells = replicate (tok_batch x) []\<rparr>"
    by (simp add: np_zeros_def)
  have m: "map_of filled n
             = (if n \<in> set (input_names self) \<and> n \<notin> set [''tokens'', ''audio_features'']
                then Some (TensorIn \<lparr>batch = tok_batch x, seqlen = 0, feat = feat a,
                                      cells = replicate (tok_batch x) []\<rparr>)
                else map_of start n)" for n
    unfolding filled_def z [symmetric] by (rule init_fold)
  have 1: "map_of filled ''tokens'' = Some (TokensIn x)"
    by (simp add: m start_def)
  have 2: "map_of filled ''audio_features'' = Some (TensorIn a)"
    by (simp add: m start_def)
  have 3: "\<forall>name \<in> set (input_names self).
             name \<noteq> ''tokens'' \<and> name \<noteq> ''audio_features'' \<longrightarrow>
             map_of filled name
               = Some (TensorIn \<lparr>batch = tok_batch x, seqlen = 0, feat = feat a,
                                  cells = replicate (tok_batch x) []\<rparr>)"
    by (simp add: m)
  have 4: "\<forall>name. map_of filled name \<noteq> None \<longrightarrow>
             name = ''tokens'' \<or> name = ''audio_features'' \<or> name \<in> set (input_names self)"
    by (simp add: m start_def)
  show ?thesis
    using p f 1 2 3 4 unfolding start_def by blast
qed

theorem first_step_feed_witness:
  "\<exists>fd. preprocess_kv_cache_inputs 0 example_text_decoder
           [(''tokens'', TokensIn (toks [[1, 2], [3, 4]])),
            (''audio_features'', TensorIn example_features)] (Some []) = Inr fd
       \<and> map_of fd ''tokens'' = Some (TokensIn (toks [[1, 2], [3, 4]]))
       \<and> map_of fd ''audio_features'' = Some (TensorIn example_features)
       \<and> map_of fd ''in_k_0a''
           = Some (TensorIn \<lparr>batch = 2, seqlen = 0, feat = 1, cells = [[], []]\<rparr>)
       \<and> map_of fd ''in_v_0a''
           = Some (TensorIn \<lparr>batch = 2, seqlen = 0, feat = 1, cells = [[], []]\<rparr>)"
proof -
  have kv: "Some [] = None \<or> Some [] = (Some [] :: int cache option)"
    by simp
  show ?thesis
    using first_step_feed [OF kv, of 0 example_text_decoder "toks [[1, 2], [3, 4]]" example_features]
    apply (elim exE conjE)
    subgoal for fd
      apply (rule exI [of _ fd])
      apply (simp add: example_text_decoder_def toks_def example_features_def tens_def
          numeral_2_eq_2)
      done
    done
qed

section \<open>The names of the slots at the compiled model\<close>

text \<open>
  The names of the slots contain no letter \<open>o\<close>, so removing every \<open>out_\<close> from
  \<open>out_\<close> followed by a slot name gives the slot name back.
\<close>

lemma digit_char_not_o: "d < 10 \<Longrightarrow> digit_char d \<noteq> CHR ''o''"
proof
  assume d: "d < 10" and "digit_char d = CHR ''o''"
  then have "of_char (char_of (48 + d) :: char) = (of_char (CHR ''o'') :: nat)"
    by (simp add: digit_char_def)
  with d show False by simp
qed

lemma string_of_nat_no_o: "CHR ''o'' \<notin> set (string_of_nat n)"
proof (induction n rule: string_of_nat.induct)
  case (1 n)
  show ?case
  proof (cases "n < 10")
    case True
    then show ?thesis
      using digit_char_not_o [of n] by (subst string_of_nat.simps) auto
  next
    case False
    then show ?thesis
      using 1 digit_char_not_o [of "n mod 10"] by (subst string_of_nat.simps) auto
  qed
qed

lemma slot_names_no_o:
  "CHR ''o'' \<notin> set (self_key i)" "CHR ''o'' \<notin> set (self_val i)"
  "CHR ''o'' \<notin> set (cross_key i)" "CHR ''o'' \<notin> set (cross_val i)"
  by (simp_all add: self_key_def self_val_def cross_key_def cross_val_def string_of_nat_no_o)

lemma str_replace_no_o: "CHR ''o'' \<notin> set s \<Longrightarrow> str_replace ''out_'' [] s = s"
proof (induction s)
  case Nil
  then show ?case by (subst str_replace.simps) simp
next
  case (Cons c s)
  then have "take (length ''out_'') (c # s) \<noteq> ''out_''"
    by auto
  with Cons show ?case
    by (subst str_replace.simps) auto
qed

lemma strip_out_prefix: "CHR ''o'' \<notin> set s \<Longrightarrow> str_replace ''out_'' [] (''out_'' @ s) = s"
  by (subst str_replace.simps) (simp add: str_replace_no_o)

lemma feed_fold:
  assumes "distinct (map fst c)"
  shows "map_of (fold (\<lambda>(k, v) fd.
            let new_k = ''in_'' @ k in
            if new_k \<in> N then dict_set fd new_k (TensorIn v) else fd) c fd0) (''in_'' @ s)
         = (case map_of c s of
              Some v \<Rightarrow> if ''in_'' @ s \<in> N then Some (TensorIn v) else map_of fd0 (''in_'' @ s)
            | None \<Rightarrow> map_of fd0 (''in_'' @ s))"
  using assms
proof (induction c arbitrary: fd0)
  case Nil
  then show ?case by simp
next
  case (Cons p c)
  obtain k v where p: "p = (k, v)" by (cases p)
  have d: "distinct (map fst c)" and nk: "map_of c k = None"
    using Cons.prems p by (auto simp: map_of_eq_None_iff)
  show ?case
    using Cons.IH [OF d] p nk by (auto simp: Let_def map_of_dict_set split: option.splits)
qed

lemma read_back_fold:
  assumes "distinct (map fst (acc @ rest))" and "\<forall>(s, t) \<in> set rest. CHR ''o'' \<notin> set s"
  shows "fold (\<lambda>(output_t, out_v) (logits, kv_cache).
             if ''logits'' \<in> set (names output_t) then (Some out_v, kv_cache)
             else (logits,
                   dict_set kv_cache (str_replace ''out_'' [] (any_name output_t)) out_v))
          (map (\<lambda>(s, t). (out_port s, t)) rest) (l, acc)
         = (l, acc @ rest)"
  using assms
proof (induction rest arbitrary: acc)
  case Nil
  then show ?case by simp
next
  case (Cons p rest)
  obtain s t where p: "p = (s, t)" by (cases p)
  have no: "CHR ''o'' \<notin> set s" using Cons.prems(2) p by simp
  have absent: "map_of acc s = None"
    using Cons.prems(1) p by (auto simp: map_of_eq_None_iff)
  have d: "distinct (map fst ((acc @ [(s, t)]) @ rest))"
    using Cons.prems(1) p by simp
  have r: "\<forall>(s, t) \<in> set rest. CHR ''o'' \<notin> set s"
    using Cons.prems(2) by simp
  show ?case
    using Cons.IH [OF d r] p no absent
    by (simp add: out_port_def strip_out_prefix [unfolded append.simps] keys_dict_set_absent)
qed

text \<open>
  Claim C8, as the code has it. On a non-empty cache the adapter feeds the tensor of
  slot \<open>s\<close> under the name \<open>in_\<close> followed by \<open>s\<close> only when the compiled model
  declares an input of that name; the entry of any other slot is left as it was (a slot
  that is no input of the model is not fed). Removing \<open>out_\<close> from the output name
  of a slot of the export gives the slot back. An output that carries the name
  \<open>logits\<close> is read as the logits, and the outputs \<open>out_s\<close> of the slots of a
  dictionary are read back as that dictionary.
\<close>

theorem slot_wire_names:
  "(distinct (map fst c) \<and> c \<noteq> [] \<and> map_of c s = Some v \<longrightarrow>
      (\<exists>fd. preprocess_kv_cache_inputs z self fd0 (Some c) = Inr fd
         \<and> (''in_'' @ s \<in> set (input_names self) \<longrightarrow> map_of fd (''in_'' @ s) = Some (TensorIn v))
         \<and> (''in_'' @ s \<notin> set (input_names self) \<longrightarrow> map_of fd (''in_'' @ s) = map_of fd0 (''in_'' @ s))))
   \<and> str_replace ''out_'' [] (''out_'' @ self_key i) = self_key i
   \<and> str_replace ''out_'' [] (''out_'' @ self_val i) = self_val i
   \<and> str_replace ''out_'' [] (''out_'' @ cross_key i) = cross_key i
   \<and> str_replace ''out_'' [] (''out_'' @ cross_val i) = cross_val i
   \<and> (''logits'' \<in> set (names lp) \<and> distinct (map fst c) \<and> (\<forall>(s, t) \<in> set c. CHR ''o'' \<notin> set s) \<longrightarrow>
        postprocess_outputs ((lp, l) # map (\<lambda>(s, t). (out_port s, t)) c) = (Some l, c))"
proof -
  have a: "distinct (map fst c) \<and> c \<noteq> [] \<and> map_of c s = Some v \<longrightarrow>
      (\<exists>fd. preprocess_kv_cache_inputs z self fd0 (Some c) = Inr fd
         \<and> (''in_'' @ s \<in> set (input_names self) \<longrightarrow> map_of fd (''in_'' @ s) = Some (TensorIn v))
         \<and> (''in_'' @ s \<notin> set (input_names self) \<longrightarrow> map_of fd (''in_'' @ s) = map_of fd0 (''in_'' @ s)))"
  proof (intro impI, elim conjE)
    assume dc: "distinct (map fst c)" and ne: "c \<noteq> []" and ms: "map_of c s = Some v"
    obtain p ps where c: "c = p # ps" using ne by (cases c) auto
    show "\<exists>fd. preprocess_kv_cache_inputs z self fd0 (Some c) = Inr fd
         \<and> (''in_'' @ s \<in> set (input_names self) \<longrightarrow> map_of fd (''in_'' @ s) = Some (TensorIn v))
         \<and> (''in_'' @ s \<notin> set (input_names self) \<longrightarrow> map_of fd (''in_'' @ s) = map_of fd0 (''in_'' @ s))"
      unfolding c preprocess_kv_cache_inputs.simps
      using feed_fold [OF dc, of "set (input_names self)" fd0 s] ms
      by (simp add: c)
  qed
  have n1: "str_replace ''out_'' [] (''out_'' @ self_key i) = self_key i"
    by (rule strip_out_prefix) (rule slot_names_no_o)
  have n2: "str_replace ''out_'' [] (''out_'' @ self_val i) = self_val i"
    by (rule strip_out_prefix) (rule slot_names_no_o)
  have n3: "str_replace ''out_'' [] (''out_'' @ cross_key i) = cross_key i"
    by (rule strip_out_prefix) (rule slot_names_no_o)
  have n4: "str_replace ''out_'' [] (''out_'' @ cross_val i) = cross_val i"
    by (rule strip_out_prefix) (rule slot_names_no_o)
  have pp: "''logits'' \<in> set (names lp) \<and> distinct (map fst c) \<and> (\<forall>(s, t) \<in> set c. CHR ''o'' \<notin> set s) \<longrightarrow>
        postprocess_outputs ((lp, l) # map (\<lambda>(s, t). (out_port s, t)) c) = (Some l, c)"
    using read_back_fold [of "[]" c "Some l"]
    by (simp add: postprocess_outputs_def)
  show ?thesis
    by (intro conjI a n1 n2 n3 n4 pp)
qed

lemma self_key_0: "self_key 0 = ''k_0a''"
  by code_simp

theorem slot_wire_names_witness:
  "(\<exists>fd. preprocess_kv_cache_inputs 0 example_text_decoder
            [(''tokens'', TokensIn (toks [[3]])), (''audio_features'', TensorIn example_features)]
            (Some [(''k_0a'', tens 1 [[1, 2]]), (''k_0c'', example_features)]) = Inr fd
        \<and> map_of fd ''in_k_0a'' = Some (TensorIn (tens 1 [[1, 2]])))
   \<and> str_replace ''out_'' [] ''out_k_0a'' = ''k_0a''
   \<and> postprocess_outputs
         [(\<lparr>any_name = ''logits'', names = [''logits'']\<rparr>, tens 1 [[5]]),
          (out_port ''k_0a'', tens 1 [[1, 2]]), (out_port ''k_0c'', example_features)]
       = (Some (tens 1 [[5]]), [(''k_0a'', tens 1 [[1, 2]]), (''k_0c'', example_features)])"
  using slot_wire_names [of "[(''k_0a'', tens 1 [[1, 2]]), (''k_0c'', example_features)]"
      "''k_0a''" "tens 1 [[1, 2]]" 0 example_text_decoder
      "[(''tokens'', TokensIn (toks [[3]])), (''audio_features'', TensorIn example_features)]"
      0 "\<lparr>any_name = ''logits'', names = [''logits'']\<rparr>" "tens 1 [[5]]"]
  by (simp add: self_key_0 example_text_decoder_def)

text \<open>
  The claim as stated fails: the cross-attention slot \<open>k_0c\<close> of the cache is not
  fed, since the compiled model declares no input \<open>in_k_0c\<close>.
\<close>

theorem slot_wire_names_counterexample:
  "preprocess_kv_cache_inputs 0 example_text_decoder
     [(''tokens'', TokensIn (toks [[3]])), (''audio_features'', TensorIn example_features)]
     (Some [(''k_0a'', tens 1 [[1, 2]]), (''k_0c'', example_features)])
   = Inr [(''tokens'', TokensIn (toks [[3]])), (''audio_features'', TensorIn example_features),
          (''in_k_0a'', TensorIn (tens 1 [[1, 2]]))]"
  by code_simp

section \<open>Resetting the cache\<close>

text \<open>
  Claim C9. \<open>cleanup_caching\<close> gives the wrapper a new, empty dictionary, as
  \<open>__init__\<close> does. Every dictionary allocated before (the one the wrapper held
  among them) is untouched by the reset and by a later store into the new dictionary.
\<close>

theorem cleanup_caching_fresh:
  assumes "cleanup_caching h self = (h', self')"
    and "a < length h"
    and "save_at pes h' (kv_cache self') m new = Inr (h'', r)"
  shows "h' ! kv_cache self' = []
     \<and> fst (inference_init h itl) ! kv_cache (snd (inference_init h itl)) = h' ! kv_cache self'
     \<and> kv_cache self' \<noteq> a
     \<and> h' ! a = h ! a
     \<and> h'' ! a = h ! a
     \<and> h'' ! kv_cache self' = [(m, new)]"
  using assms
  by (auto simp: cleanup_caching_def inference_init_def new_dict_def save_at_def
      save_to_cache_def nth_append)

theorem cleanup_caching_fresh_witness:
  "\<exists>h' self' h'' r.
      cleanup_caching [example_cache5] \<lparr>initial_token_length = 3, kv_cache = 0\<rparr> = (h', self')
      \<and> save_at 4 h' (kv_cache self') ''k_0a'' (tens 1 [[1 :: int]]) = Inr (h'', r)
      \<and> h' ! kv_cache self' = [] \<and> kv_cache self' \<noteq> 0
      \<and> h'' ! 0 = example_cache5 \<and> h'' ! kv_cache self' = [(''k_0a'', tens 1 [[1]])]"
proof -
  have c: "cleanup_caching [example_cache5] \<lparr>initial_token_length = 3, kv_cache = 0\<rparr>
             = ([example_cache5, []], \<lparr>initial_token_length = 3, kv_cache = 1\<rparr>)"
    by (simp add: cleanup_caching_def new_dict_def)
  have s: "save_at 4 [example_cache5, []]
             (kv_cache \<lparr>initial_token_length = 3, kv_cache = 1\<rparr>) ''k_0a'' (tens 1 [[1 :: int]])
             = Inr ([example_cache5, [(''k_0a'', tens 1 [[1]])]], tens 1 [[1]])"
    by (simp add: save_at_def save_to_cache_def)
  have a: "(0 :: nat) < length [example_cache5]"
    by simp
  from cleanup_caching_fresh [OF c a s] c s show ?thesis
    by simp
qed

section \<open>Failing steps\<close>











section \<open>The result of resampling\<close>

text \<open>
  Claim C10, as the code has it. With equal rates \<open>resample\<close> returns its input as it
  is. With different rates, a source rate other than 0, a signal that is not empty and
  a target length \<open>int((len(audio) / src) * dst)\<close> that is not negative, the result has
  dtype float32 and that length. (For an empty signal \<open>np.interp\<close> raises, for a source
  rate of 0 the division does.)
\<close>

theorem resample_result:
  "(src = dst \<longrightarrow> resample fl audio src dst = Inr audio)
   \<and> (src \<noteq> dst \<and> src \<noteq> 0 \<and> samples audio \<noteq> []
        \<and> 0 \<le> ftrunc fl (fmul fl (fdiv fl (length (samples audio)) src) dst) \<longrightarrow>
      (\<exists>r. resample fl audio src dst = Inr r \<and> dtype r = Float32
         \<and> int (length (samples r))
             = ftrunc fl (fmul fl (fdiv fl (length (samples audio)) src) dst)))"
  by (auto simp: resample_def np_linspace_def Let_def)

theorem resample_result_witness:
  "resample example_float_ops example_audio 2 2 = Inr example_audio
   \<and> (\<exists>r. resample example_float_ops example_audio 2 1 = Inr r \<and> dtype r = Float32
         \<and> length (samples r) = 2)"
proof -
  have n: "ftrunc example_float_ops
             (fmul example_float_ops
               (fdiv example_float_ops (length (samples example_audio)) 2) 1) = 2"
    by (simp add: example_float_ops_def example_audio_def)
  have s: "samples example_audio \<noteq> []"
    by (simp add: example_audio_def)
  show ?thesis
    using resample_result [of 2 2 example_float_ops example_audio]
      resample_result [of 2 1 example_float_ops example_audio] n s
    by auto
qed

text \<open>
  The claim as stated fails on the empty signal: the rates differ and there is no
  result.
\<close>

theorem resample_result_counterexample:
  "resample example_float_ops \<lparr>dtype = Float32, samples = []\<rparr> 44100 16000 = Inl ValueError"
  by (simp add: resample_def np_linspace_def example_float_ops_def)

end
